theory Spec2Isabelle
  imports Complex_Main "HOL-Library.Multiset" "HOL-Library.Log_Nat"
begin

section \<open>Calendar dates\<close>

text \<open>
  The functions of \<^verbatim>\<open>bank_balance.py\<close> work on calendar dates of the date library
  (year, month, day). A date is modelled by its three fields; the years are unbounded
  integers, so the finite range of the library's date type is outside the model.
  Time of day is dropped: the projection normalises every date to midnight.
\<close>

datatype date = Date (year: int) (month: nat) (day: nat)

definition is_leap :: "int \<Rightarrow> bool" where
  "is_leap y = (y mod 4 = 0 \<and> (y mod 100 \<noteq> 0 \<or> y mod 400 = 0))"

definition days_in_month :: "int \<Rightarrow> nat \<Rightarrow> nat" where
  "days_in_month y m =
     (if m = 2 then (if is_leap y then 29 else 28)
      else if m = 4 \<or> m = 6 \<or> m = 9 \<or> m = 11 then 30
      else 31)"

text \<open>The dates the library can construct: month 1..12, day 1..days in that month.\<close>

definition valid_date :: "date \<Rightarrow> bool" where
  "valid_date d =
     (1 \<le> month d \<and> month d \<le> 12 \<and> 1 \<le> day d \<and> day d \<le> days_in_month (year d) (month d))"

text \<open>Dates compare field by field: year, then month, then day.\<close>

instantiation date :: linorder
begin

definition less_eq_date :: "date \<Rightarrow> date \<Rightarrow> bool" where
  "less_eq_date a b =
     (year a < year b \<or> (year a = year b \<and>
        (month a < month b \<or> (month a = month b \<and> day a \<le> day b))))"

definition less_date :: "date \<Rightarrow> date \<Rightarrow> bool" where
  "less_date a b =
     (year a < year b \<or> (year a = year b \<and>
        (month a < month b \<or> (month a = month b \<and> day a < day b))))"

instance
proof
  fix x y z :: date
  show "(x < y) = (x \<le> y \<and> \<not> y \<le> x)"
    by (auto simp: less_eq_date_def less_date_def)
  show "x \<le> x"
    by (simp add: less_eq_date_def)
  show "x \<le> y \<Longrightarrow> y \<le> z \<Longrightarrow> x \<le> z"
    by (auto simp: less_eq_date_def)
  show "x \<le> y \<Longrightarrow> y \<le> x \<Longrightarrow> x = y"
    by (auto simp: less_eq_date_def intro: date.expand)
  show "x \<le> y \<or> y \<le> x"
    by (auto simp: less_eq_date_def)
qed

end

text \<open>\<^verbatim>\<open>d + timedelta(days=1)\<close>: the next calendar day.\<close>

definition next_day :: "date \<Rightarrow> date" where
  "next_day d =
     (if day d < days_in_month (year d) (month d) then Date (year d) (month d) (day d + 1)
      else if month d < 12 then Date (year d) (month d + 1) 1
      else Date (year d + 1) 1 1)"

text \<open>\<^verbatim>\<open>d + timedelta(days=n)\<close> for \<open>n \<ge> 0\<close>.\<close>

fun add_days :: "date \<Rightarrow> nat \<Rightarrow> date" where
  "add_days d 0 = d"
| "add_days d (Suc n) = add_days (next_day d) n"

text \<open>
  \<^verbatim>\<open>d.replace(year=y, month=m, day=k)\<close> builds the date with the given fields and
  raises \<^verbatim>\<open>ValueError\<close> when no such calendar day exists.
\<close>

datatype error = ValueError

definition replace :: "int \<Rightarrow> nat \<Rightarrow> nat \<Rightarrow> error + date" where
  "replace y m k = (if valid_date (Date y m k) then Inr (Date y m k) else Inl ValueError)"

section \<open>Expansion of a recurring cash flow\<close>

text \<open>
  One pass of the body of the loop in \<^verbatim>\<open>generate_recurring_events\<close>, after the
  append: the new value of \<^verbatim>\<open>current\<close>, or the error that leaves the function.
  The frequency is the string of the source; a frequency that matches no branch leaves
  \<^verbatim>\<open>current\<close> as it is.
\<close>

definition advance :: "string \<Rightarrow> date \<Rightarrow> error + date" where
  "advance freq current =
     (if freq = ''Daily'' then Inr (add_days current 1)
      else if freq = ''Weekly'' then Inr (add_days current 7)
      else if freq = ''Monthly'' then
        (if month current = 12 then replace (year current + 1) 1 (day current)
         else replace (year current) (month current + 1) (day current))
      else if freq = ''Yearly'' then
        (case replace (year current + 1) (month current) (day current) of
           Inr c \<Rightarrow> Inr c
         | Inl e \<Rightarrow> replace (year current + 1) 2 28)
      else Inr current)"

text \<open>The four frequencies that the loop has a branch for.\<close>

definition frequencies :: "string set" where
  "frequencies = {''Daily'', ''Weekly'', ''Monthly'', ''Yearly''}"

text \<open>
  The loop \<^verbatim>\<open>while current <= end_date\<close>. It may run forever, so it is a partial
  function: \<open>None\<close> is "does not return", \<open>Some (Inl e)\<close> an uncaught error and
  \<open>Some (Inr dates)\<close> the list of dates at the end of the loop.
\<close>

partial_function (option) expand_loop ::
  "string \<Rightarrow> date \<Rightarrow> date \<Rightarrow> date list \<Rightarrow> (error + date list) option" where
  "expand_loop freq end_date current dates =
     (if current \<le> end_date then
        (case advance freq current of
           Inl e \<Rightarrow> Some (Inl e)
         | Inr c \<Rightarrow> expand_loop freq end_date c (dates @ [current]))
      else Some (Inr dates))"

declare expand_loop.simps [code]

text \<open>
  \<^verbatim>\<open>generate_recurring_events\<close>: the data frame with the columns \<^verbatim>\<open>date\<close> and
  \<^verbatim>\<open>amount\<close> is a list of rows; every row carries the same amount.
\<close>

definition generate_recurring_events ::
  "date \<Rightarrow> date \<Rightarrow> rat \<Rightarrow> string \<Rightarrow> (error + (date \<times> rat) list) option" where
  "generate_recurring_events start_date end_date amount freq =
     (case expand_loop freq end_date start_date [] of
        None \<Rightarrow> None
      | Some (Inl e) \<Rightarrow> Some (Inl e)
      | Some (Inr dates) \<Rightarrow> Some (Inr (map (\<lambda>d. (d, amount)) dates)))"

section \<open>Projection of the balance\<close>

text \<open>
  A row of the \<^verbatim>\<open>events\<close> frame (columns \<^verbatim>\<open>date\<close>, \<^verbatim>\<open>amount\<close>, \<^verbatim>\<open>type\<close>,
  \<^verbatim>\<open>name\<close>) and a row of the timeline that \<^verbatim>\<open>project_balance\<close> returns
  (columns \<^verbatim>\<open>date\<close>, \<^verbatim>\<open>balance\<close>, \<^verbatim>\<open>amount\<close>). Numbers are rationals. The
  definitions of this section add them exactly; the program adds float64 numbers, and the
  section on float64 below repeats the same steps with rounded additions.
\<close>

record event =
  ev_date :: date
  ev_amount :: rat
  ev_type :: string
  ev_name :: string

record row =
  tl_date :: date
  tl_balance :: rat
  tl_amount :: rat

text \<open>
  The measure that shows that walking day by day towards \<open>e\<close> ends: the years left,
  then the months left in the year, then the days left in the month.
\<close>

definition days_left :: "date \<Rightarrow> date \<Rightarrow> nat" where
  "days_left e d = nat (year e - year d + 1) * 416 + (12 - month d) * 32 + (31 - day d)"

text \<open>\<^verbatim>\<open>pd.date_range(start_date, end_date)\<close>: every day from the first to the last.\<close>

function date_range :: "date \<Rightarrow> date \<Rightarrow> date list" where
  "date_range d e = (if d \<le> e then d # date_range (next_day d) e else [])"
  by pat_completeness auto
termination
proof (relation "measure (\<lambda>(d, e). days_left e d)")
  show "wf (measure (\<lambda>(d, e). days_left e d))" by simp
next
  fix d e :: date
  assume le: "d \<le> e"
  have dim: "days_in_month (year d) (month d) \<le> 31"
    by (simp add: days_in_month_def)
  have yr: "year d \<le> year e"
    using le by (auto simp: less_eq_date_def)
  have "days_left e (next_day d) < days_left e d"
  proof (cases "day d < days_in_month (year d) (month d)")
    case True
    then show ?thesis using dim by (simp add: days_left_def next_day_def)
  next
    case False
    show ?thesis
    proof (cases "month d < 12")
      case True
      then show ?thesis using False by (simp add: days_left_def next_day_def)
    next
      case False
      have "nat (year e - year d + 1) = Suc (nat (year e - (year d + 1) + 1))"
        using yr by simp
      then show ?thesis
        using False \<open>\<not> day d < days_in_month (year d) (month d)\<close>
        by (simp add: days_left_def next_day_def)
    qed
  qed
  then show "((next_day d, e), (d, e)) \<in> measure (\<lambda>(d, e). days_left e d)"
    by simp
qed

declare date_range.simps [simp del]

text \<open>
  \<^verbatim>\<open>events_local.groupby("date")["amount"].sum().reset_index()\<close>: one row per date
  that occurs, in ascending order of the dates, with the sum of the amounts of that date.
\<close>

definition groupby_sum :: "event list \<Rightarrow> (date \<times> rat) list" where
  "groupby_sum events =
     map (\<lambda>d. (d, sum_list (map ev_amount (filter (\<lambda>ev. ev_date ev = d) events))))
       (sort (remdups (map ev_date events)))"

text \<open>
  \<^verbatim>\<open>timeline.merge(daily, on="date", how="left")\<close>: every row of the left frame, once
  for each row of the right frame with the same date, and once with a missing amount when
  there is none.
\<close>

definition merge_left :: "date list \<Rightarrow> (date \<times> rat) list \<Rightarrow> (date \<times> rat option) list" where
  "merge_left grid daily =
     concat (map (\<lambda>d. case filter (\<lambda>r. fst r = d) daily of
                         [] \<Rightarrow> [(d, None)]
                       | ms \<Rightarrow> map (\<lambda>r. (d, Some (snd r))) ms) grid)"

text \<open>\<^verbatim>\<open>fillna(0)\<close> on one cell.\<close>

definition fillna0 :: "rat option \<Rightarrow> rat" where
  "fillna0 v = (case v of None \<Rightarrow> 0 | Some a \<Rightarrow> a)"

text \<open>\<^verbatim>\<open>cumsum()\<close>: the running sums of a column.\<close>

fun cumsum_from :: "rat \<Rightarrow> rat list \<Rightarrow> rat list" where
  "cumsum_from acc [] = []"
| "cumsum_from acc (x # xs) = (acc + x) # cumsum_from (acc + x) xs"

definition cumsum :: "rat list \<Rightarrow> rat list" where
  "cumsum xs = cumsum_from 0 xs"

text \<open>
  \<^verbatim>\<open>project_balance\<close>. The dates and amounts of the timeline are built first (with
  the left merge when there are events, with amount 0 otherwise), then the balance column
  is the starting balance plus the running sum of the amounts.
\<close>

definition timeline_amounts :: "event list \<Rightarrow> date \<Rightarrow> date \<Rightarrow> (date \<times> rat) list" where
  "timeline_amounts events start_date end_date =
     (if events \<noteq> [] then
        map (\<lambda>(d, v). (d, fillna0 v)) (merge_left (date_range start_date end_date) (groupby_sum events))
      else map (\<lambda>d. (d, 0)) (date_range start_date end_date))"

definition project_balance :: "rat \<Rightarrow> event list \<Rightarrow> date \<Rightarrow> date \<Rightarrow> row list" where
  "project_balance start_balance events start_date end_date =
     (let tab = timeline_amounts events start_date end_date in
      map (\<lambda>((d, a), c). \<lparr>tl_date = d, tl_balance = start_balance + c, tl_amount = a\<rparr>)
        (zip tab (cumsum (map snd tab))))"

text \<open>
  The net amount of a day, in the words of the specification: the sum of the amounts of
  all events that fall on that day. The properties of the projection are stated with it.
\<close>

definition net_amount :: "event list \<Rightarrow> date \<Rightarrow> rat" where
  "net_amount events d = sum_list (map ev_amount (filter (\<lambda>ev. ev_date ev = d) events))"

section \<open>The projection in float64\<close>

text \<open>
  The amounts and balances of the program are float64 numbers: the number inputs return
  floats. A finite float64 is a rational, and the sum of two of them is the exact sum
  rounded to the nearest float64, a tie going to the even significand. Infinities and
  NaN, which come up only when a sum overflows at \<open>2 ^ 1024\<close>, are outside the model.
\<close>

text \<open>
  \<open>\<lfloor>log\<^sub>2 x\<rfloor>\<close> for a positive \<open>x\<close>, from the bit length of an integer.
\<close>

definition ilog2 :: "rat \<Rightarrow> int" where
  "ilog2 x = (if 1 \<le> x then bitlen \<lfloor>x\<rfloor> - 1 else - bitlen (\<lceil>1 / x\<rceil> - 1))"

text \<open>
  Rounding of a non-negative number to an integer, a tie going to the even one.
\<close>

definition round_half_even :: "rat \<Rightarrow> int" where
  "round_half_even y =
     (let n = \<lfloor>y\<rfloor>; r = y - of_int n
      in if r < 1 / 2 then n else if 1 / 2 < r then n + 1 else if even n then n else n + 1)"

text \<open>
  Rounding to 53 significant bits: the unit in the last place of \<open>x\<close> is
  \<open>2\<close> to the power \<open>\<lfloor>log\<^sub>2 \<bar>x\<bar>\<rfloor> - 52\<close>. (Below \<open>2\<close> to the power \<open>-1022\<close> a float64 has
  fewer bits, but there the sum of two float64 numbers is exact.)
\<close>

definition f64_round :: "rat \<Rightarrow> rat" where
  "f64_round x =
     (if x = 0 then 0
      else let u = 2 powi (ilog2 \<bar>x\<bar> - 52)
           in sgn x * of_int (round_half_even (\<bar>x\<bar> / u)) * u)"

text \<open>
  The addition of two float64 numbers.
\<close>

definition f64_add :: "rat \<Rightarrow> rat \<Rightarrow> rat" where
  "f64_add a b = f64_round (a + b)"

text \<open>
  The steps of \<^verbatim>\<open>project_balance\<close> with the additions of float64: the sum of a group
  adds its amounts from 0 in the order of the rows, \<^verbatim>\<open>cumsum\<close> keeps the first element
  and adds each next one to the running sum, and line 68 adds the starting balance to every
  running sum.
\<close>

definition group_sum_f64 :: "rat list \<Rightarrow> rat" where
  "group_sum_f64 xs = foldl f64_add 0 xs"

definition groupby_sum_f64 :: "event list \<Rightarrow> (date \<times> rat) list" where
  "groupby_sum_f64 events =
     map (\<lambda>d. (d, group_sum_f64 (map ev_amount (filter (\<lambda>ev. ev_date ev = d) events))))
       (sort (remdups (map ev_date events)))"

fun cumsum_from_f64 :: "rat \<Rightarrow> rat list \<Rightarrow> rat list" where
  "cumsum_from_f64 acc [] = []"
| "cumsum_from_f64 acc (x # xs) = f64_add acc x # cumsum_from_f64 (f64_add acc x) xs"

definition cumsum_f64 :: "rat list \<Rightarrow> rat list" where
  "cumsum_f64 xs = (case xs of [] \<Rightarrow> [] | x # rest \<Rightarrow> x # cumsum_from_f64 x rest)"

definition timeline_amounts_f64 :: "event list \<Rightarrow> date \<Rightarrow> date \<Rightarrow> (date \<times> rat) list" where
  "timeline_amounts_f64 events start_date end_date =
     (if events \<noteq> [] then
        map (\<lambda>(d, v). (d, fillna0 v))
          (merge_left (date_range start_date end_date) (groupby_sum_f64 events))
      else map (\<lambda>d. (d, 0)) (date_range start_date end_date))"

definition project_balance_f64 :: "rat \<Rightarrow> event list \<Rightarrow> date \<Rightarrow> date \<Rightarrow> row list" where
  "project_balance_f64 start_balance events start_date end_date =
     (let tab = timeline_amounts_f64 events start_date end_date in
      map (\<lambda>((d, a), c). \<lparr>tl_date = d, tl_balance = f64_add start_balance c, tl_amount = a\<rparr>)
        (zip tab (cumsum_f64 (map snd tab))))"

text \<open>
  An addition is exact when the sum is below the overflow and is not changed by the
  rounding. A projection is exact when none of its additions rounds: those of the sums of
  the days of the grid, those of the running sum, and those of the starting balance to the
  running sums.
\<close>

definition f64_exact :: "rat \<Rightarrow> rat \<Rightarrow> bool" where
  "f64_exact a b = (\<bar>a + b\<bar> < 2 ^ 1024 \<and> f64_round (a + b) = a + b)"

fun exact_fold :: "rat \<Rightarrow> rat list \<Rightarrow> bool" where
  "exact_fold acc [] = True"
| "exact_fold acc (x # xs) = (f64_exact acc x \<and> exact_fold (acc + x) xs)"

definition run_exact :: "rat \<Rightarrow> event list \<Rightarrow> date \<Rightarrow> date \<Rightarrow> bool" where
  "run_exact start_balance events start_date end_date =
     (let grid = date_range start_date end_date; nets = map (net_amount events) grid in
      list_all (\<lambda>d. exact_fold 0 (map ev_amount (filter (\<lambda>ev. ev_date ev = d) events))) grid
      \<and> (case nets of [] \<Rightarrow> True | x # rest \<Rightarrow> exact_fold x rest)
      \<and> list_all (f64_exact start_balance) (cumsum nets))"

section \<open>The session: declarations, add and delete\<close>

text \<open>
  An entry of \<^verbatim>\<open>st.session_state.bills\<close> or \<^verbatim>\<open>st.session_state.income\<close>. The dates
  are stored as text and parsed again before use; the model keeps the date.
\<close>

record cashflow =
  d_name :: string
  d_amount :: rat
  d_frequency :: string
  d_start_date :: date
  d_end_date :: date

text \<open>
  The two collections of the session and the content of \<^verbatim>\<open>cashflow_data.json\<close>
  (\<open>None\<close> when the file does not exist).
\<close>

record session_state =
  bills :: "cashflow list"
  income :: "cashflow list"
  data_file :: "(cashflow list \<times> cashflow list) option"

definition load_data :: "(cashflow list \<times> cashflow list) option \<Rightarrow> cashflow list \<times> cashflow list" where
  "load_data file = (case file of Some content \<Rightarrow> content | None \<Rightarrow> ([], []))"

definition save_data :: "session_state \<Rightarrow> session_state" where
  "save_data st = st\<lparr>data_file := Some (bills st, income st)\<rparr>"

text \<open>The session at the first run of the script, from the file as it is found.\<close>

definition init_session :: "(cashflow list \<times> cashflow list) option \<Rightarrow> session_state" where
  "init_session file =
     \<lparr>bills = fst (load_data file), income = snd (load_data file), data_file = file\<rparr>"

text \<open>The sidebar: the amount of a bill is made negative when it was entered positive.\<close>

definition sidebar_amount :: "string \<Rightarrow> rat \<Rightarrow> rat" where
  "sidebar_amount flow_type a = (if flow_type = ''Bill (expense)'' \<and> a > 0 then - \<bar>a\<bar> else a)"

text \<open>The handler of the \<^verbatim>\<open>Add\<close> button.\<close>

definition add_entry ::
  "session_state \<Rightarrow> string \<Rightarrow> string \<Rightarrow> rat \<Rightarrow> string \<Rightarrow> date \<Rightarrow> date \<Rightarrow> session_state" where
  "add_entry st flow_type nm a freq sd ed =
     (let entry = \<lparr>d_name = nm, d_amount = sidebar_amount flow_type a, d_frequency = freq,
                   d_start_date = sd, d_end_date = ed\<rparr>
      in save_data (if flow_type = ''Bill (expense)''
                    then st\<lparr>bills := bills st @ [entry]\<rparr>
                    else st\<lparr>income := income st @ [entry]\<rparr>))"

text \<open>
  The handlers of \<^verbatim>\<open>Delete Bill\<close> and \<^verbatim>\<open>Delete Income\<close>, with the value of the
  select box. The select box offers \<^verbatim>\<open>"None"\<close> before the names, and the handler does
  nothing for that value; it is shown only when the collection is not empty.
\<close>

definition delete_bill :: "session_state \<Rightarrow> string \<Rightarrow> session_state" where
  "delete_bill st remove =
     (if bills st \<noteq> [] \<and> remove \<noteq> ''None''
      then save_data (st\<lparr>bills := filter (\<lambda>b. d_name b \<noteq> remove) (bills st)\<rparr>)
      else st)"

definition delete_income :: "session_state \<Rightarrow> string \<Rightarrow> session_state" where
  "delete_income st remove =
     (if income st \<noteq> [] \<and> remove \<noteq> ''None''
      then save_data (st\<lparr>income := filter (\<lambda>i. d_name i \<noteq> remove) (income st)\<rparr>)
      else st)"

section \<open>The projection tab\<close>

text \<open>
  The two loops that expand every bill and every income and collect the frames; an error
  or a loop that does not end in one expansion is the outcome of the whole.
\<close>

fun expand_items :: "string \<Rightarrow> cashflow list \<Rightarrow> (error + event list) option" where
  "expand_items ty [] = Some (Inr [])"
| "expand_items ty (item # items) =
     (case generate_recurring_events (d_start_date item) (d_end_date item) (d_amount item)
             (d_frequency item) of
        None \<Rightarrow> None
      | Some (Inl e) \<Rightarrow> Some (Inl e)
      | Some (Inr df) \<Rightarrow>
          (case expand_items ty items of
             None \<Rightarrow> None
           | Some (Inl e) \<Rightarrow> Some (Inl e)
           | Some (Inr frames) \<Rightarrow>
               Some (Inr (map (\<lambda>(d, a). \<lparr>ev_date = d, ev_amount = a, ev_type = ty,
                                          ev_name = d_name item\<rparr>) df @ frames))))"

definition projection :: "session_state \<Rightarrow> rat \<Rightarrow> date \<Rightarrow> date \<Rightarrow> (error + row list) option" where
  "projection st start_balance start_date end_date =
     (case expand_items ''Bill'' (bills st) of
        None \<Rightarrow> None
      | Some (Inl e) \<Rightarrow> Some (Inl e)
      | Some (Inr bs) \<Rightarrow>
          (case expand_items ''Income'' (income st) of
             None \<Rightarrow> None
           | Some (Inl e) \<Rightarrow> Some (Inl e)
           | Some (Inr is) \<Rightarrow>
               Some (Inr (project_balance start_balance (bs @ is) start_date end_date))))"

text \<open>
  \<^verbatim>\<open>timeline["balance"].min()\<close> and the test \<^verbatim>\<open>min_balance < 0\<close> that chooses
  between the error and the success message. The minimum of an empty column is missing,
  and the test is then false.
\<close>

definition min_balance :: "row list \<Rightarrow> rat option" where
  "min_balance timeline =
     (case map tl_balance timeline of [] \<Rightarrow> None | b # bs \<Rightarrow> Some (fold min bs b))"

definition goes_negative :: "row list \<Rightarrow> bool" where
  "goes_negative timeline = (case min_balance timeline of None \<Rightarrow> False | Some m \<Rightarrow> m < 0)"

text \<open>
  The balances of the rows of a timeline that carry a given date, for reading a timeline
  at a day.
\<close>

definition balance_on :: "row list \<Rightarrow> date \<Rightarrow> rat list" where
  "balance_on timeline d = map tl_balance (filter (\<lambda>r. tl_date r = d) timeline)"

section \<open>Sessions as sequences of interactions\<close>

text \<open>
  The script runs once for every interaction. An interaction is a press of \<^verbatim>\<open>Add\<close>
  with the values of the sidebar, a press of one of the delete buttons with the value of
  its select box, or the start of a new session, which loads the file again. A run starts
  with no file.
\<close>

datatype action =
    Add string string rat string date date
  | DeleteBill string
  | DeleteIncome string
  | Reload

fun step :: "session_state \<Rightarrow> action \<Rightarrow> session_state" where
  "step st (Add flow_type nm a freq sd ed) = add_entry st flow_type nm a freq sd ed"
| "step st (DeleteBill remove) = delete_bill st remove"
| "step st (DeleteIncome remove) = delete_income st remove"
| "step st Reload = init_session (data_file st)"

definition run :: "action list \<Rightarrow> session_state" where
  "run acts = foldl step (init_session None) acts"

text \<open>
  The bills of the session and the bills in the file have no positive amount: the
  invariant that the handlers keep.
\<close>

definition bills_ok :: "session_state \<Rightarrow> bool" where
  "bills_ok st =
     ((\<forall>b\<in>set (bills st). d_amount b \<le> 0) \<and>
      (case data_file st of None \<Rightarrow> True | Some content \<Rightarrow> \<forall>b\<in>set (fst content). d_amount b \<le> 0))"

text \<open>
  The scenario of the specification: one monthly bill of -50 from 2025-01-01 to 2025-04-01
  and no income.
\<close>

definition scenario :: session_state where
  "scenario = \<lparr>bills = [\<lparr>d_name = ''rent'', d_amount = -50, d_frequency = ''Monthly'',
                          d_start_date = Date 2025 1 1, d_end_date = Date 2025 4 1\<rparr>],
               income = [], data_file = None\<rparr>"

section \<open>Calendar lemmas\<close>

lemma next_day_greater: "d < next_day d"
  by (simp add: less_date_def next_day_def)

lemma days_in_month_le: "days_in_month y m \<le> 31"
  by (simp add: days_in_month_def)

lemma days_in_month_ge: "28 \<le> days_in_month y m"
  by (simp add: days_in_month_def)

lemma valid_next_day: "valid_date d \<Longrightarrow> valid_date (next_day d)"
  using days_in_month_ge [of "year d" "month d"] days_in_month_ge [of "year d" "Suc (month d)"]
    days_in_month_ge [of "year d + 1" 1]
  by (auto simp: valid_date_def next_day_def)

lemma next_day_least:
  assumes "valid_date a" "valid_date b" "a < b"
  shows "next_day a \<le> b"
  using assms
  by (auto simp: valid_date_def next_day_def less_date_def less_eq_date_def)

lemma days_left_next_day: "d \<le> e \<Longrightarrow> days_left e (next_day d) < days_left e d"
proof -
  assume le: "d \<le> e"
  have dim: "days_in_month (year d) (month d) \<le> 31" by (rule days_in_month_le)
  have yr: "year d \<le> year e"
    using le by (auto simp: less_eq_date_def)
  then have "nat (year e - year d + 1) = Suc (nat (year e - (year d + 1) + 1))"
    by simp
  then show ?thesis using dim
    by (auto simp: days_left_def next_day_def)
qed

lemma add_days_ge: "d \<le> add_days d n"
proof (induction n arbitrary: d)
  case 0 show ?case by simp
next
  case (Suc n)
  have "d < next_day d" by (rule next_day_greater)
  also have "next_day d \<le> add_days (next_day d) n" by (rule Suc.IH)
  finally show ?case by simp
qed

lemma add_days_greater: "0 < n \<Longrightarrow> d < add_days d n"
proof (cases n)
  case 0 then show "0 < n \<Longrightarrow> ?thesis" by simp
next
  case (Suc k)
  have "d < next_day d" by (rule next_day_greater)
  also have "next_day d \<le> add_days (next_day d) k" by (rule add_days_ge)
  finally show ?thesis using Suc by simp
qed

lemma days_left_add_days:
  "0 < n \<Longrightarrow> add_days d n \<le> e \<Longrightarrow> days_left e (add_days d n) < days_left e d"
proof (induction n arbitrary: d)
  case 0 then show ?case by simp
next
  case (Suc n)
  have nd: "next_day d \<le> e"
    using add_days_ge [of "next_day d" n] Suc.prems(2) by simp
  have "d \<le> e" using next_day_greater [of d] nd by simp
  then have step: "days_left e (next_day d) < days_left e d" by (rule days_left_next_day)
  show ?case
  proof (cases n)
    case 0 then show ?thesis using step by simp
  next
    case (Suc k)
    then have "days_left e (add_days (next_day d) n) < days_left e (next_day d)"
      using Suc.IH [of "next_day d"] Suc.prems(2) by simp
    then show ?thesis using step by simp
  qed
qed

section \<open>Lemmas on the expansion loop\<close>

lemma expand_loop_stop: "\<not> current \<le> end_date \<Longrightarrow> expand_loop freq end_date current dates = Some (Inr dates)"
  by (subst expand_loop.simps) simp

lemma expand_loop_step:
  "current \<le> end_date \<Longrightarrow> advance freq current = Inr c \<Longrightarrow>
   expand_loop freq end_date current dates = expand_loop freq end_date c (dates @ [current])"
  by (subst expand_loop.simps) simp

lemma expand_loop_raise:
  "current \<le> end_date \<Longrightarrow> advance freq current = Inl err \<Longrightarrow>
   expand_loop freq end_date current dates = Some (Inl err)"
  by (subst expand_loop.simps) simp

lemma replace_Inr: "replace y m k = Inr c \<Longrightarrow> c = Date y m k \<and> valid_date c"
  by (auto simp: replace_def split: if_splits)

lemma advance_greater:
  assumes "freq \<in> frequencies" "advance freq current = Inr c"
  shows "current < c"
proof -
  consider "freq = ''Daily''" | "freq = ''Weekly''" | "freq = ''Monthly''" | "freq = ''Yearly''"
    using assms(1) by (auto simp: frequencies_def)
  then show ?thesis
  proof cases
    case 1
    then have "c = add_days current 1" using assms(2) by (simp add: advance_def)
    then show ?thesis using add_days_greater [of 1 current] by simp
  next
    case 2
    then have "c = add_days current 7" using assms(2) by (simp add: advance_def)
    then show ?thesis using add_days_greater [of 7 current] by simp
  next
    case 3
    then show ?thesis using assms(2)
      by (auto simp: advance_def less_date_def split: if_splits dest!: replace_Inr)
  next
    case 4
    then show ?thesis using assms(2)
      by (auto simp: advance_def less_date_def split: if_splits sum.splits dest!: replace_Inr)
  qed
qed

lemma advance_unknown: "freq \<notin> frequencies \<Longrightarrow> advance freq current = Inr current"
  by (simp add: advance_def frequencies_def)

lemma advance_days_left:
  assumes "freq \<in> frequencies" "advance freq current = Inr c" "c \<le> e"
  shows "days_left e c < days_left e current"
proof -
  consider "freq = ''Daily''" | "freq = ''Weekly''" | "freq = ''Monthly''" | "freq = ''Yearly''"
    using assms(1) by (auto simp: frequencies_def)
  then show ?thesis
  proof cases
    case 1
    then have "c = add_days current 1" using assms(2) by (simp add: advance_def)
    then show ?thesis using days_left_add_days [of 1 current e] assms(3) by simp
  next
    case 2
    then have "c = add_days current 7" using assms(2) by (simp add: advance_def)
    then show ?thesis using days_left_add_days [of 7 current e] assms(3) by simp
  next
    case 3
    have yr: "year c \<le> year e" using assms(3) by (auto simp: less_eq_date_def)
    show ?thesis
    proof (cases "month current = 12")
      case True
      then have c: "c = Date (year current + 1) 1 (day current)"
        using 3 assms(2) by (auto simp: advance_def dest!: replace_Inr)
      then have "nat (year e - year current + 1) = Suc (nat (year e - year c + 1))"
        using yr by simp
      then show ?thesis using c True by (simp add: days_left_def)
    next
      case False
      then have c: "c = Date (year current) (month current + 1) (day current)" and v: "valid_date c"
        using 3 assms(2) by (auto simp: advance_def dest!: replace_Inr)
      then have "month current + 1 \<le> 12" by (simp add: valid_date_def)
      then show ?thesis using c by (simp add: days_left_def)
    qed
  next
    case 4
    have yr: "year c \<le> year e" using assms(3) by (auto simp: less_eq_date_def)
    have "year c = year current + 1"
      using 4 assms(2) by (auto simp: advance_def split: sum.splits dest!: replace_Inr)
    then have "nat (year e - year current + 1) = Suc (nat (year e - year c + 1))"
      using yr by simp
    then show ?thesis by (simp add: days_left_def)
  qed
qed

lemma expand_loop_returns:
  assumes "freq \<in> frequencies"
  shows "\<exists>r. expand_loop freq e current dates = Some r"
proof (induction "days_left e current" arbitrary: current dates rule: less_induct)
  case less
  show ?case
  proof (cases "current \<le> e")
    case False
    then show ?thesis by (simp add: expand_loop_stop)
  next
    case True
    show ?thesis
    proof (cases "advance freq current")
      case (Inl err)
      then show ?thesis using True by (simp add: expand_loop_raise)
    next
      case (Inr c)
      show ?thesis
      proof (cases "c \<le> e")
        case False
        then show ?thesis using True Inr by (simp add: expand_loop_step expand_loop_stop)
      next
        case cle: True
        have "days_left e c < days_left e current"
          using assms Inr cle by (rule advance_days_left)
        then have "\<exists>r. expand_loop freq e c (dates @ [current]) = Some r"
          by (rule less.hyps)
        then show ?thesis using True Inr by (simp add: expand_loop_step)
      qed
    qed
  qed
qed

lemma expand_loop_unknown_stops:
  assumes "expand_loop freq e current dates = Some r"
  shows "freq \<notin> frequencies \<longrightarrow> \<not> current \<le> e"
proof (rule expand_loop.raw_induct
    [where P = "\<lambda>fq ed cur ds y. fq \<notin> frequencies \<longrightarrow> \<not> cur \<le> ed", OF _ assms])
  fix f :: "string \<Rightarrow> date \<Rightarrow> date \<Rightarrow> date list \<Rightarrow> (error + date list) option"
  fix fq ed cur ds y
  assume IH: "\<And>fq ed cur ds y. f fq ed cur ds = Some y \<Longrightarrow> fq \<notin> frequencies \<longrightarrow> \<not> cur \<le> ed"
  assume body: "(if cur \<le> ed
      then case advance fq cur of Inl e \<Rightarrow> Some (Inl e) | Inr c \<Rightarrow> f fq ed c (ds @ [cur])
      else Some (Inr ds)) = Some y"
  show "fq \<notin> frequencies \<longrightarrow> \<not> cur \<le> ed"
  proof
    assume unk: "fq \<notin> frequencies"
    show "\<not> cur \<le> ed"
    proof
      assume le: "cur \<le> ed"
      have "advance fq cur = Inr cur" using unk by (rule advance_unknown)
      then have "f fq ed cur (ds @ [cur]) = Some y"
        using body le by simp
      then show False using IH unk le by blast
    qed
  qed
qed

lemma expand_loop_diverges:
  assumes "freq \<notin> frequencies" "current \<le> e"
  shows "expand_loop freq e current dates = None"
proof (cases "expand_loop freq e current dates")
  case None
  then show ?thesis .
next
  case (Some r)
  then show ?thesis using expand_loop_unknown_stops assms by blast
qed

lemma expand_loop_result:
  assumes "freq \<in> frequencies"
  shows "expand_loop freq e current dates = Some (Inr out) \<Longrightarrow>
         \<exists>new. out = dates @ new \<and> sorted_wrt (<) new \<and> (\<forall>d\<in>set new. current \<le> d \<and> d \<le> e)"
proof (induction "days_left e current" arbitrary: current dates rule: less_induct)
  case less
  show ?case
  proof (cases "current \<le> e")
    case False
    then have "out = dates" using less.prems by (simp add: expand_loop_stop)
    then show ?thesis by simp
  next
    case True
    show ?thesis
    proof (cases "advance freq current")
      case (Inl err)
      then show ?thesis using True less.prems by (simp add: expand_loop_raise)
    next
      case (Inr c)
      have gt: "current < c" using assms Inr by (rule advance_greater)
      have run: "expand_loop freq e c (dates @ [current]) = Some (Inr out)"
        using True Inr less.prems by (simp add: expand_loop_step)
      show ?thesis
      proof (cases "c \<le> e")
        case False
        then have "out = dates @ [current]" using run by (simp add: expand_loop_stop)
        then show ?thesis using True by simp
      next
        case cle: True
        have "days_left e c < days_left e current"
          using assms Inr cle by (rule advance_days_left)
        then obtain new where new: "out = (dates @ [current]) @ new" "sorted_wrt (<) new"
            "\<forall>d\<in>set new. c \<le> d \<and> d \<le> e"
          using less.hyps [OF _ run] by blast
        have "out = dates @ (current # new)" using new(1) by simp
        moreover have "sorted_wrt (<) (current # new)"
          using new(2,3) gt by auto
        moreover have "\<forall>d\<in>set (current # new). current \<le> d \<and> d \<le> e"
          using new(3) gt True by auto
        ultimately show ?thesis by blast
      qed
    qed
  qed
qed

lemma advance_no_error:
  assumes "freq = ''Daily'' \<or> freq = ''Weekly'' \<or> freq = ''Yearly''"
  shows "\<exists>c. advance freq current = Inr c"
  using assms
  by (auto simp: advance_def replace_def valid_date_def days_in_month_def split: sum.splits)

lemma expand_loop_no_error:
  assumes "freq = ''Daily'' \<or> freq = ''Weekly'' \<or> freq = ''Yearly''"
  shows "\<exists>out. expand_loop freq e current dates = Some (Inr out)"
proof -
  have fr: "freq \<in> frequencies" using assms by (auto simp: frequencies_def)
  show ?thesis
  proof (induction "days_left e current" arbitrary: current dates rule: less_induct)
    case less
    show ?case
    proof (cases "current \<le> e")
      case False
      then show ?thesis by (simp add: expand_loop_stop)
    next
      case True
      obtain c where c: "advance freq current = Inr c"
        using advance_no_error [OF assms] by blast
      show ?thesis
      proof (cases "c \<le> e")
        case False
        then show ?thesis using True c by (simp add: expand_loop_step expand_loop_stop)
      next
        case cle: True
        have "days_left e c < days_left e current"
          using fr c cle by (rule advance_days_left)
        then have "\<exists>out. expand_loop freq e c (dates @ [current]) = Some (Inr out)"
          by (rule less.hyps)
        then show ?thesis using True c by (simp add: expand_loop_step)
      qed
    qed
  qed
qed

lemma monthly_q1: "generate_recurring_events (Date 2025 1 1) (Date 2025 4 1) (-50) ''Monthly'' =
    Some (Inr [(Date 2025 1 1, -50), (Date 2025 2 1, -50), (Date 2025 3 1, -50), (Date 2025 4 1, -50)])"
  by code_simp

section \<open>Expansion: termination, dates, errors\<close>

text \<open>
  Claim C4. With one of the four frequencies the expansion ends for any pair of dates (it
  returns a frame or leaves with an error), and every pass of the loop that goes on moves
  \<^verbatim>\<open>current\<close> to a strictly later date. With any other frequency and
  \<open>start_date \<le> end_date\<close> the pass leaves \<^verbatim>\<open>current\<close> as it is and the
  expansion does not return.
\<close>

theorem expansion_terminates:
  "(freq \<in> frequencies \<longrightarrow>
      (\<exists>r. generate_recurring_events s e a freq = Some r) \<and>
      (\<forall>current c. advance freq current = Inr c \<longrightarrow> current < c))
   \<and> (freq \<notin> frequencies \<and> s \<le> e \<longrightarrow>
        generate_recurring_events s e a freq = None \<and>
        (\<forall>current. advance freq current = Inr current))"
proof (intro conjI impI allI)
  assume fr: "freq \<in> frequencies"
  obtain r where "expand_loop freq e s [] = Some r"
    using expand_loop_returns [OF fr] by blast
  then show "\<exists>r. generate_recurring_events s e a freq = Some r"
    by (cases r) (simp_all add: generate_recurring_events_def)
next
  fix current c
  assume "freq \<in> frequencies" "advance freq current = Inr c"
  then show "current < c" by (rule advance_greater)
next
  assume "freq \<notin> frequencies \<and> s \<le> e"
  then have "expand_loop freq e s [] = None" by (simp add: expand_loop_diverges)
  then show "generate_recurring_events s e a freq = None"
    by (simp add: generate_recurring_events_def)
next
  fix current
  assume "freq \<notin> frequencies \<and> s \<le> e"
  then show "advance freq current = Inr current" by (simp add: advance_unknown)
qed

text \<open>
  The theorem of C4 at the monthly bill of the first quarter of 2025, and at the frequency
  \<^verbatim>\<open>"Hourly"\<close>, which has no branch.
\<close>

theorem expansion_terminates_witness:
  "''Monthly'' \<in> frequencies
   \<and> (\<exists>r. generate_recurring_events (Date 2025 1 1) (Date 2025 4 1) (-50) ''Monthly'' = Some r)
   \<and> ''Hourly'' \<notin> frequencies \<and> Date 2025 1 1 \<le> Date 2025 4 1
   \<and> generate_recurring_events (Date 2025 1 1) (Date 2025 4 1) (-50) ''Hourly'' = None"
proof -
  have m: "''Monthly'' \<in> frequencies" by (simp add: frequencies_def)
  have h: "''Hourly'' \<notin> frequencies" by (simp add: frequencies_def)
  have le: "Date 2025 1 1 \<le> Date 2025 4 1" by (simp add: less_eq_date_def)
  show ?thesis
    using m h le
      expansion_terminates [of "''Monthly''" "Date 2025 1 1" "Date 2025 4 1" "-50"]
      expansion_terminates [of "''Hourly''" "Date 2025 1 1" "Date 2025 4 1" "-50"]
    by blast
qed

text \<open>
  Claim C5. With one of the four frequencies and \<open>start_date \<le> end_date\<close>, the dates of
  the returned frame are strictly increasing and lie in \<open>[start_date, end_date]\<close> (and every
  row carries the amount); a frame is returned for every frequency but \<^verbatim>\<open>Monthly\<close>,
  whose \<^verbatim>\<open>replace\<close> can raise. With \<open>start_date > end_date\<close> the frame is empty.
\<close>

theorem expansion_dates:
  "(freq \<in> frequencies \<and> s \<le> e \<and> generate_recurring_events s e a freq = Some (Inr evs) \<longrightarrow>
      sorted_wrt (<) (map fst evs) \<and> (\<forall>d\<in>set (map fst evs). s \<le> d \<and> d \<le> e)
      \<and> (\<forall>x\<in>set (map snd evs). x = a))
   \<and> (freq \<in> frequencies \<and> freq \<noteq> ''Monthly'' \<longrightarrow>
        (\<exists>evs. generate_recurring_events s e a freq = Some (Inr evs)))
   \<and> (e < s \<longrightarrow> generate_recurring_events s e a freq = Some (Inr []))"
proof (intro conjI impI)
  assume h: "freq \<in> frequencies \<and> s \<le> e \<and> generate_recurring_events s e a freq = Some (Inr evs)"
  then obtain out where out: "expand_loop freq e s [] = Some (Inr out)"
      and evs: "evs = map (\<lambda>d. (d, a)) out"
    by (auto simp: generate_recurring_events_def split: option.splits sum.splits)
  have fr: "freq \<in> frequencies" using h by simp
  obtain new where "out = [] @ new" "sorted_wrt (<) new" "\<forall>d\<in>set new. s \<le> d \<and> d \<le> e"
    using expand_loop_result [OF fr out] by blast
  moreover have "map fst evs = out" using evs by (simp add: comp_def)
  ultimately show "sorted_wrt (<) (map fst evs)" "\<forall>d\<in>set (map fst evs). s \<le> d \<and> d \<le> e"
    by simp_all
  show "\<forall>x\<in>set (map snd evs). x = a" using evs by auto
next
  assume h: "freq \<in> frequencies \<and> freq \<noteq> ''Monthly''"
  then have "freq = ''Daily'' \<or> freq = ''Weekly'' \<or> freq = ''Yearly''"
    by (auto simp: frequencies_def)
  then obtain out where "expand_loop freq e s [] = Some (Inr out)"
    using expand_loop_no_error by blast
  then show "\<exists>evs. generate_recurring_events s e a freq = Some (Inr evs)"
    by (simp add: generate_recurring_events_def)
next
  assume "e < s"
  then have "\<not> s \<le> e" by simp
  then show "generate_recurring_events s e a freq = Some (Inr [])"
    by (simp add: generate_recurring_events_def expand_loop_stop)
qed

text \<open>
  The theorem of C5 at the monthly bill of the first quarter of 2025, at a yearly one, and
  at the reversed range.
\<close>

theorem expansion_dates_witness:
  "''Monthly'' \<in> frequencies \<and> Date 2025 1 1 \<le> Date 2025 4 1
   \<and> generate_recurring_events (Date 2025 1 1) (Date 2025 4 1) (-50) ''Monthly'' =
       Some (Inr [(Date 2025 1 1, -50), (Date 2025 2 1, -50), (Date 2025 3 1, -50), (Date 2025 4 1, -50)])
   \<and> sorted_wrt (<) [Date 2025 1 1, Date 2025 2 1, Date 2025 3 1, Date 2025 4 1]
   \<and> ''Yearly'' \<in> frequencies \<and> ''Yearly'' \<noteq> ''Monthly''
   \<and> (\<exists>evs. generate_recurring_events (Date 2025 1 1) (Date 2025 4 1) (-50) ''Yearly'' = Some (Inr evs))
   \<and> Date 2025 1 1 < Date 2025 4 1
   \<and> generate_recurring_events (Date 2025 4 1) (Date 2025 1 1) (-50) ''Monthly'' = Some (Inr [])"
proof -
  have m: "''Monthly'' \<in> frequencies" "''Yearly'' \<in> frequencies" "''Yearly'' \<noteq> ''Monthly''"
    by (simp_all add: frequencies_def)
  have le: "Date 2025 1 1 \<le> Date 2025 4 1" by (simp add: less_eq_date_def)
  have lt: "Date 2025 1 1 < Date 2025 4 1" by (simp add: less_date_def)
  note run = monthly_q1
  have "sorted_wrt (<) (map fst [(Date 2025 1 1, -50::rat), (Date 2025 2 1, -50), (Date 2025 3 1, -50), (Date 2025 4 1, -50)])"
    using m le run
      expansion_dates [of "''Monthly''" "Date 2025 1 1" "Date 2025 4 1" "-50"
        "[(Date 2025 1 1, -50), (Date 2025 2 1, -50), (Date 2025 3 1, -50), (Date 2025 4 1, -50)]"]
    by blast
  then have s: "sorted_wrt (<) [Date 2025 1 1, Date 2025 2 1, Date 2025 3 1, Date 2025 4 1]"
    by simp
  have y: "\<exists>evs. generate_recurring_events (Date 2025 1 1) (Date 2025 4 1) (-50) ''Yearly'' = Some (Inr evs)"
    using m expansion_dates [of "''Yearly''" "Date 2025 1 1" "Date 2025 4 1" "-50" "[]"] by blast
  have e: "generate_recurring_events (Date 2025 4 1) (Date 2025 1 1) (-50) ''Monthly'' = Some (Inr [])"
    using lt expansion_dates [of "''Monthly''" "Date 2025 4 1" "Date 2025 1 1" "-50" "[]"] by blast
  show ?thesis using m le lt run s y e by blast
qed

text \<open>
  Claim C3 says that the expansion raises no error, also for a monthly flow that starts on
  Jan 31. The monthly branch calls \<^verbatim>\<open>replace(month=month + 1)\<close> with no handler, where
  the yearly branch catches the \<^verbatim>\<open>ValueError\<close>: from 2024-01-31 the expansion leaves
  with \<^verbatim>\<open>ValueError\<close>, since there is no Feb 31.
\<close>

theorem monthly_from_jan_31_raises:
  "generate_recurring_events (Date 2024 1 31) (Date 2024 4 30) 10 ''Monthly'' = Some (Inl ValueError)"
  by code_simp

text \<open>
  Claim C2 says that the yearly expansion from 2020-02-29 is back on Feb 29 in 2024. The
  loop steps from the current date, which is Feb 28 since 2021, so the frame is not the
  one of the claim.
\<close>

theorem yearly_from_leap_day_not_feb_29:
  "generate_recurring_events (Date 2020 2 29) (Date 2024 12 31) 10 ''Yearly'' \<noteq>
     Some (Inr [(Date 2020 2 29, 10), (Date 2021 2 28, 10), (Date 2022 2 28, 10),
                (Date 2023 2 28, 10), (Date 2024 2 29, 10)])"
  by code_simp

text \<open>
  Claim C2, amended. The yearly expansion from 2020-02-29 with an end date in
  \<open>[2024-02-28, 2025-02-28)\<close> has exactly the dates 2020-02-29, 2021-02-28, 2022-02-28,
  2023-02-28 and 2024-02-28: after the fall back to Feb 28 the later occurrences stay on
  Feb 28, also in the leap year 2024.
\<close>

theorem yearly_from_leap_day:
  assumes "Date 2024 2 28 \<le> e" "e < Date 2025 2 28"
  shows "generate_recurring_events (Date 2020 2 29) e a ''Yearly'' =
     Some (Inr [(Date 2020 2 29, a), (Date 2021 2 28, a), (Date 2022 2 28, a),
                (Date 2023 2 28, a), (Date 2024 2 28, a)])"
proof -
  have a0: "advance ''Yearly'' (Date 2020 2 29) = Inr (Date 2021 2 28)"
    by (simp add: advance_def replace_def valid_date_def days_in_month_def is_leap_def)
  have a1: "advance ''Yearly'' (Date 2021 2 28) = Inr (Date 2022 2 28)"
    by (simp add: advance_def replace_def valid_date_def days_in_month_def is_leap_def)
  have a2: "advance ''Yearly'' (Date 2022 2 28) = Inr (Date 2023 2 28)"
    by (simp add: advance_def replace_def valid_date_def days_in_month_def is_leap_def)
  have a3: "advance ''Yearly'' (Date 2023 2 28) = Inr (Date 2024 2 28)"
    by (simp add: advance_def replace_def valid_date_def days_in_month_def is_leap_def)
  have a4: "advance ''Yearly'' (Date 2024 2 28) = Inr (Date 2025 2 28)"
    by (simp add: advance_def replace_def valid_date_def days_in_month_def is_leap_def)
  have l4: "Date 2024 2 28 \<le> e" by (rule assms(1))
  have l3: "Date 2023 2 28 \<le> e" using l4 by (auto simp: less_eq_date_def)
  have l2: "Date 2022 2 28 \<le> e" using l4 by (auto simp: less_eq_date_def)
  have l1: "Date 2021 2 28 \<le> e" using l4 by (auto simp: less_eq_date_def)
  have l0: "Date 2020 2 29 \<le> e" using l4 by (auto simp: less_eq_date_def)
  have l5: "\<not> Date 2025 2 28 \<le> e" using assms(2) by simp
  have "expand_loop ''Yearly'' e (Date 2020 2 29) [] =
      Some (Inr [Date 2020 2 29, Date 2021 2 28, Date 2022 2 28, Date 2023 2 28, Date 2024 2 28])"
    by (simp add: expand_loop_step [OF l0 a0] expand_loop_step [OF l1 a1]
        expand_loop_step [OF l2 a2] expand_loop_step [OF l3 a3] expand_loop_step [OF l4 a4]
        expand_loop_stop [OF l5])
  then show ?thesis by (simp add: generate_recurring_events_def)
qed

text \<open>
  The amended C2 at the end date 2024-12-31 and the amount 10.
\<close>

theorem yearly_from_leap_day_witness:
  "Date 2024 2 28 \<le> Date 2024 12 31 \<and> Date 2024 12 31 < Date 2025 2 28 \<and>
   generate_recurring_events (Date 2020 2 29) (Date 2024 12 31) 10 ''Yearly'' =
     Some (Inr [(Date 2020 2 29, 10), (Date 2021 2 28, 10), (Date 2022 2 28, 10),
                (Date 2023 2 28, 10), (Date 2024 2 28, 10)])"
proof -
  have h1: "Date 2024 2 28 \<le> Date 2024 12 31" by (simp add: less_eq_date_def)
  have h2: "Date 2024 12 31 < Date 2025 2 28" by (simp add: less_date_def)
  show ?thesis using h1 h2 yearly_from_leap_day [OF h1 h2, of 10] by simp
qed

section \<open>Lemmas on the day grid and the projection\<close>

lemma date_range_Cons: "d \<le> e \<Longrightarrow> date_range d e = d # date_range (next_day d) e"
  by (subst date_range.simps) simp

lemma date_range_Nil: "\<not> d \<le> e \<Longrightarrow> date_range d e = []"
  by (subst date_range.simps) simp

lemma date_range_bounds: "x \<in> set (date_range d e) \<Longrightarrow> d \<le> x \<and> x \<le> e"
proof (induction d e rule: date_range.induct)
  case (1 d e)
  show ?case
  proof (cases "d \<le> e")
    case False
    then show ?thesis using 1(2) by (simp add: date_range_Nil)
  next
    case True
    then have "x = d \<or> x \<in> set (date_range (next_day d) e)"
      using 1(2) by (simp add: date_range_Cons)
    then show ?thesis
    proof
      assume "x = d"
      then show ?thesis using True by simp
    next
      assume "x \<in> set (date_range (next_day d) e)"
      then have "next_day d \<le> x \<and> x \<le> e" using 1(1) True by simp
      then show ?thesis using next_day_greater [of d] by auto
    qed
  qed
qed

lemma date_range_valid: "valid_date d \<Longrightarrow> x \<in> set (date_range d e) \<Longrightarrow> valid_date x"
proof (induction d e rule: date_range.induct)
  case (1 d e)
  show ?case
  proof (cases "d \<le> e")
    case False
    then show ?thesis using 1(3) by (simp add: date_range_Nil)
  next
    case True
    then have "x = d \<or> x \<in> set (date_range (next_day d) e)"
      using 1(3) by (simp add: date_range_Cons)
    then show ?thesis using 1(1) [OF True valid_next_day [OF 1(2)]] 1(2) by auto
  qed
qed

lemma date_range_sorted: "sorted_wrt (<) (date_range d e)"
proof (induction d e rule: date_range.induct)
  case (1 d e)
  show ?case
  proof (cases "d \<le> e")
    case False
    then show ?thesis by (simp add: date_range_Nil)
  next
    case True
    have "\<forall>x\<in>set (date_range (next_day d) e). d < x"
      using date_range_bounds [of _ "next_day d" e] next_day_greater [of d] by force
    then show ?thesis using 1 True by (simp add: date_range_Cons)
  qed
qed

lemma date_range_covers:
  "valid_date d \<Longrightarrow> valid_date x \<Longrightarrow> d \<le> x \<Longrightarrow> x \<le> e \<Longrightarrow> x \<in> set (date_range d e)"
proof (induction d e rule: date_range.induct)
  case (1 d e)
  have le: "d \<le> e" using 1(4,5) by simp
  show ?case
  proof (cases "x = d")
    case True
    then show ?thesis using le by (simp add: date_range_Cons)
  next
    case False
    then have "d < x" using 1(4) by simp
    then have "next_day d \<le> x" using 1(2,3) by (simp add: next_day_least)
    then have "x \<in> set (date_range (next_day d) e)"
      using 1(1) [OF le valid_next_day [OF 1(2)] 1(3)] 1(5) by simp
    then show ?thesis using le by (simp add: date_range_Cons)
  qed
qed

lemma date_range_consecutive:
  "Suc i < length (date_range d e) \<Longrightarrow> date_range d e ! Suc i = next_day (date_range d e ! i)"
proof (induction d e arbitrary: i rule: date_range.induct)
  case (1 d e)
  show ?case
  proof (cases "d \<le> e")
    case False
    then show ?thesis using 1(2) by (simp add: date_range_Nil)
  next
    case True
    note dr = date_range_Cons [OF True]
    show ?thesis
    proof (cases i)
      case 0
      then have "next_day d \<le> e" using 1(2) dr by (auto simp: date_range_Nil intro: ccontr)
      then show ?thesis using 0 dr by (simp add: date_range_Cons)
    next
      case (Suc j)
      then have "Suc j < length (date_range (next_day d) e)" using 1(2) dr by simp
      then show ?thesis using 1(1) [OF True] Suc dr by simp
    qed
  qed
qed

lemma date_range_single: "date_range d d = [d]"
  using next_day_greater [of d] by (simp add: date_range_Cons date_range_Nil)

lemma filter_key_distinct:
  "distinct ks \<Longrightarrow>
   filter (\<lambda>r. fst r = d) (map (\<lambda>k. (k, g k)) ks) = (if d \<in> set ks then [(d, g d)] else [])"
  by (induction ks) auto

lemma net_amount_absent: "d \<notin> ev_date ` set events \<Longrightarrow> net_amount events d = 0"
proof -
  assume "d \<notin> ev_date ` set events"
  then have "filter (\<lambda>ev. ev_date ev = d) events = []"
    by (auto simp: filter_empty_conv)
  then show ?thesis by (simp add: net_amount_def)
qed

lemma groupby_sum_net:
  "groupby_sum events = map (\<lambda>d. (d, net_amount events d)) (sort (remdups (map ev_date events)))"
  by (simp add: groupby_sum_def net_amount_def)

lemma merge_left_groupby:
  "map (\<lambda>(d, v). (d, fillna0 v)) (merge_left grid (groupby_sum events)) =
   map (\<lambda>d. (d, net_amount events d)) grid"
proof -
  let ?ks = "sort (remdups (map ev_date events))"
  have dist: "distinct ?ks" by simp
  have ks: "set ?ks = ev_date ` set events" by simp
  have cell: "(case filter (\<lambda>r. fst r = d) (groupby_sum events) of
                 [] \<Rightarrow> [(d, None)]
               | ms \<Rightarrow> map (\<lambda>r. (d, Some (snd r))) ms) =
              [(d, if d \<in> ev_date ` set events then Some (net_amount events d) else None)]" for d
    unfolding groupby_sum_net filter_key_distinct [OF dist] ks by simp
  have "merge_left grid (groupby_sum events) =
        map (\<lambda>d. (d, if d \<in> ev_date ` set events then Some (net_amount events d) else None)) grid"
    unfolding merge_left_def cell by (induction grid) simp_all
  then show ?thesis
    by (simp add: fillna0_def net_amount_absent comp_def)
qed

lemma timeline_amounts_net:
  "timeline_amounts events s e = map (\<lambda>d. (d, net_amount events d)) (date_range s e)"
proof (cases "events = []")
  case True
  then show ?thesis by (simp add: timeline_amounts_def net_amount_def)
next
  case False
  then show ?thesis by (simp add: timeline_amounts_def merge_left_groupby)
qed

lemma length_cumsum_from: "length (cumsum_from acc xs) = length xs"
  by (induction xs arbitrary: acc) simp_all

lemma nth_cumsum_from:
  "i < length xs \<Longrightarrow> cumsum_from acc xs ! i = acc + sum_list (take (Suc i) xs)"
proof (induction xs arbitrary: acc i)
  case Nil
  then show ?case by simp
next
  case (Cons x xs)
  show ?case
  proof (cases i)
    case 0
    then show ?thesis by simp
  next
    case (Suc j)
    then have "j < length xs" using Cons.prems by simp
    then show ?thesis using Cons.IH [of j "acc + x"] Suc by (simp add: add.assoc)
  qed
qed

lemma length_project_balance:
  "length (project_balance B events s e) = length (date_range s e)"
  by (simp add: project_balance_def timeline_amounts_net cumsum_def length_cumsum_from Let_def)

lemma nth_project_balance:
  assumes "i < length (date_range s e)"
  shows "project_balance B events s e ! i =
    \<lparr>tl_date = date_range s e ! i,
     tl_balance = B + sum_list (take (Suc i) (map (net_amount events) (date_range s e))),
     tl_amount = net_amount events (date_range s e ! i)\<rparr>"
  using assms
  by (simp add: project_balance_def timeline_amounts_net cumsum_def length_cumsum_from
      nth_cumsum_from Let_def comp_def)

lemma dates_project_balance:
  "map tl_date (project_balance B events s e) = date_range s e"
  by (rule nth_equalityI) (simp_all add: length_project_balance nth_project_balance)



lemma sorted_le_last: "sorted xs \<Longrightarrow> x \<in> set xs \<Longrightarrow> x \<le> (last xs :: 'a :: linorder)"
  by (induction xs) (auto simp: last_in_set)

lemma prefix_sum_exact_arithmetic:
  assumes "s \<le> e"
  shows "project_balance B evs s e \<noteq> []
    \<and> tl_date (project_balance B evs s e ! 0) = s
    \<and> tl_balance (project_balance B evs s e ! 0) - B = net_amount evs s
    \<and> (\<forall>i. 0 < i \<and> i < length (project_balance B evs s e) \<longrightarrow>
          tl_balance (project_balance B evs s e ! i) - tl_balance (project_balance B evs s e ! (i - 1))
          = net_amount evs (tl_date (project_balance B evs s e ! i)))"
proof (intro conjI allI impI)
  have ne: "date_range s e \<noteq> []" using assms by (simp add: date_range_Cons)
  then have len: "0 < length (date_range s e)" by simp
  show "project_balance B evs s e \<noteq> []"
    using len length_project_balance [of B evs s e] by auto
  have hd: "date_range s e ! 0 = s" using assms by (simp add: date_range_Cons)
  show "tl_date (project_balance B evs s e ! 0) = s"
    using hd by (simp add: nth_project_balance [OF len])
  have "take (Suc 0) (map (net_amount evs) (date_range s e)) = [net_amount evs s]"
    using assms by (simp add: date_range_Cons)
  then show "tl_balance (project_balance B evs s e ! 0) - B = net_amount evs s"
    by (simp add: nth_project_balance [OF len])
next
  fix i
  assume "0 < i \<and> i < length (project_balance B evs s e)"
  then obtain j where i: "i = Suc j" and lt: "Suc j < length (date_range s e)"
    by (cases i) (simp_all add: length_project_balance)
  let ?xs = "map (net_amount evs) (date_range s e)"
  have "take (Suc (Suc j)) ?xs = take (Suc j) ?xs @ [?xs ! Suc j]"
    using lt by (simp add: take_Suc_conv_app_nth)
  then have "sum_list (take (Suc (Suc j)) ?xs) - sum_list (take (Suc j) ?xs) = ?xs ! Suc j"
    by simp
  moreover have "?xs ! Suc j = net_amount evs (date_range s e ! Suc j)"
    using lt by simp
  moreover have "j < length (date_range s e)" using lt by simp
  ultimately show "tl_balance (project_balance B evs s e ! i) - tl_balance (project_balance B evs s e ! (i - 1))
          = net_amount evs (tl_date (project_balance B evs s e ! i))"
    using lt i by (simp add: nth_project_balance)
qed

text \<open>
  The rounding at work: \<open>2 ^ 53 + 1\<close> and \<open>2 ^ 53 + 3\<close> lie half way between two float64
  numbers and go to the even significand; a sum of whole numbers below \<open>2 ^ 53\<close> is exact.
\<close>

lemma f64_add_examples:
  "f64_add 9007199254740992 1 = 9007199254740992"
  "f64_add 9007199254740992 3 = 9007199254740996"
  "f64_add 100 (-50) = 50"
  by code_simp+

lemma foldl_f64_add_exact:
  "exact_fold acc xs \<Longrightarrow> foldl f64_add acc xs = acc + sum_list xs"
  by (induction xs arbitrary: acc) (simp_all add: f64_exact_def f64_add_def add.assoc)

lemma group_sum_f64_exact:
  "exact_fold 0 xs \<Longrightarrow> group_sum_f64 xs = sum_list xs"
  by (simp add: group_sum_f64_def foldl_f64_add_exact)

lemma cumsum_from_f64_exact:
  "exact_fold acc xs \<Longrightarrow> cumsum_from_f64 acc xs = cumsum_from acc xs"
  by (induction xs arbitrary: acc) (simp_all add: f64_exact_def f64_add_def)

lemma cumsum_f64_exact:
  "(case xs of [] \<Rightarrow> True | x # rest \<Rightarrow> exact_fold x rest) \<Longrightarrow> cumsum_f64 xs = cumsum xs"
  by (cases xs) (simp_all add: cumsum_f64_def cumsum_def cumsum_from_f64_exact)

lemma group_sum_f64_Nil: "group_sum_f64 [] = 0"
  by (simp add: group_sum_f64_def)

lemma timeline_amounts_f64_groups:
  "timeline_amounts_f64 events s e =
   map (\<lambda>d. (d, group_sum_f64 (map ev_amount (filter (\<lambda>ev. ev_date ev = d) events))))
     (date_range s e)"
proof (cases "events = []")
  case True
  then show ?thesis by (simp add: timeline_amounts_f64_def group_sum_f64_Nil)
next
  case False
  let ?g = "\<lambda>d. group_sum_f64 (map ev_amount (filter (\<lambda>ev. ev_date ev = d) events))"
  let ?ks = "sort (remdups (map ev_date events))"
  let ?grid = "date_range s e"
  have dist: "distinct ?ks" by simp
  have ks: "set ?ks = ev_date ` set events" by simp
  have gb: "groupby_sum_f64 events = map (\<lambda>d. (d, ?g d)) ?ks"
    by (simp add: groupby_sum_f64_def)
  have cell: "(case filter (\<lambda>r. fst r = d) (groupby_sum_f64 events) of
                 [] \<Rightarrow> [(d, None)]
               | ms \<Rightarrow> map (\<lambda>r. (d, Some (snd r))) ms) =
              [(d, if d \<in> ev_date ` set events then Some (?g d) else None)]" for d
    unfolding gb filter_key_distinct [OF dist] ks by simp
  have absent: "?g d = 0" if "d \<notin> ev_date ` set events" for d
  proof -
    have "filter (\<lambda>ev. ev_date ev = d) events = []"
      using that by (auto simp: filter_empty_conv)
    then show ?thesis by (simp add: group_sum_f64_Nil)
  qed
  have "merge_left ?grid (groupby_sum_f64 events) =
        map (\<lambda>d. (d, if d \<in> ev_date ` set events then Some (?g d) else None)) ?grid"
    unfolding merge_left_def cell by (induction ?grid) simp_all
  then have "map (\<lambda>(d, v). (d, fillna0 v)) (merge_left ?grid (groupby_sum_f64 events)) =
        map (\<lambda>d. (d, ?g d)) ?grid"
    by (simp add: fillna0_def absent comp_def)
  then show ?thesis using False by (simp add: timeline_amounts_f64_def)
qed

lemma dates_project_balance_f64:
  "map tl_date (project_balance_f64 B events s e) = date_range s e"
proof -
  have len: "length (cumsum_from_f64 acc xs) = length xs" for acc xs
    by (induction xs arbitrary: acc) simp_all
  have clen: "length (cumsum_f64 xs) = length xs" for xs
    by (cases xs) (simp_all add: cumsum_f64_def len)
  show ?thesis
    by (rule nth_equalityI)
      (simp_all add: project_balance_f64_def timeline_amounts_f64_groups Let_def clen)
qed

lemma project_balance_f64_exact:
  assumes "run_exact B events s e"
  shows "project_balance_f64 B events s e = project_balance B events s e"
proof -
  let ?grid = "date_range s e"
  let ?nets = "map (net_amount events) ?grid"
  from assms have groups: "\<forall>d\<in>set ?grid. exact_fold 0 (map ev_amount (filter (\<lambda>ev. ev_date ev = d) events))"
    and sums: "(case ?nets of [] \<Rightarrow> True | x # rest \<Rightarrow> exact_fold x rest)"
    and bal: "\<forall>c\<in>set (cumsum ?nets). f64_exact B c"
    by (simp_all add: run_exact_def Let_def list_all_iff)
  have tab: "timeline_amounts_f64 events s e = timeline_amounts events s e"
    unfolding timeline_amounts_f64_groups timeline_amounts_net
    using groups by (simp add: group_sum_f64_exact net_amount_def)
  have snd: "map snd (timeline_amounts events s e) = ?nets"
    by (simp add: timeline_amounts_net comp_def)
  have cs: "cumsum_f64 ?nets = cumsum ?nets" using sums by (rule cumsum_f64_exact)
  let ?F = "\<lambda>((d, a), c). \<lparr>tl_date = d, tl_balance = f64_add B c, tl_amount = a\<rparr>"
  let ?G = "\<lambda>((d, a), c). \<lparr>tl_date = d, tl_balance = B + c, tl_amount = a\<rparr>"
  let ?zs = "zip (timeline_amounts events s e) (cumsum ?nets)"
  have "?F p = ?G p" if "p \<in> set ?zs" for p
  proof -
    have "snd p \<in> set (cumsum ?nets)" using that by (metis in_set_zipE prod.collapse)
    then have "f64_add B (snd p) = B + snd p" using bal by (simp add: f64_exact_def f64_add_def)
    then show ?thesis by (simp add: case_prod_beta)
  qed
  then have "map ?F ?zs = map ?G ?zs" by simp
  then show ?thesis
    by (simp add: project_balance_f64_def project_balance_def tab snd cs Let_def)
qed

section \<open>Lemmas on the session\<close>

lemma sidebar_amount_bill:
  "sidebar_amount ''Bill (expense)'' a = (if a > 0 then - a else a)"
  "sidebar_amount ''Bill (expense)'' a \<le> 0"
  by (auto simp: sidebar_amount_def)

lemma bills_ok_init: "bills_ok (init_session None)"
  by (simp add: bills_ok_def init_session_def load_data_def)

lemma bills_ok_step: "bills_ok st \<Longrightarrow> bills_ok (step st act)"
proof (cases act)
  case (Add flow_type nm a freq sd ed)
  assume "bills_ok st"
  then show ?thesis using Add sidebar_amount_bill(2) [of a]
    by (auto simp: bills_ok_def add_entry_def save_data_def Let_def split: option.splits)
next
  case (DeleteBill remove)
  assume "bills_ok st"
  then show ?thesis using DeleteBill
    by (auto simp: bills_ok_def delete_bill_def save_data_def split: option.splits)
next
  case (DeleteIncome remove)
  assume "bills_ok st"
  then show ?thesis using DeleteIncome
    by (auto simp: bills_ok_def delete_income_def save_data_def split: option.splits)
next
  case Reload
  assume "bills_ok st"
  then show ?thesis using Reload
    by (auto simp: bills_ok_def init_session_def load_data_def split: option.splits)
qed

lemma bills_ok_foldl: "bills_ok st \<Longrightarrow> bills_ok (foldl step st acts)"
  by (induction acts arbitrary: st) (simp_all add: bills_ok_step)

lemma bills_ok_run: "bills_ok (run acts)"
  by (simp add: run_def bills_ok_foldl bills_ok_init)

lemma generate_amounts:
  "generate_recurring_events s e a freq = Some (Inr df) \<Longrightarrow> x \<in> set df \<Longrightarrow> snd x = a"
  by (auto simp: generate_recurring_events_def split: option.splits sum.splits)

lemma expand_items_amounts:
  "expand_items ty items = Some (Inr evs) \<Longrightarrow> ev \<in> set evs \<Longrightarrow>
   \<exists>item\<in>set items. ev_amount ev = d_amount item"
proof (induction items arbitrary: evs)
  case Nil
  then show ?case by simp
next
  case (Cons item items)
  from Cons.prems(1) obtain df frames where
    df: "generate_recurring_events (d_start_date item) (d_end_date item) (d_amount item)
           (d_frequency item) = Some (Inr df)"
    and fr: "expand_items ty items = Some (Inr frames)"
    and evs: "evs = map (\<lambda>(d, a). \<lparr>ev_date = d, ev_amount = a, ev_type = ty,
                                    ev_name = d_name item\<rparr>) df @ frames"
    by (auto split: option.splits sum.splits)
  from Cons.prems(2) evs consider
    (here) x where "x \<in> set df" "ev_amount ev = snd x" | (rest) "ev \<in> set frames"
    by (auto split: prod.splits)
  then show ?case
  proof cases
    case here
    then show ?thesis using generate_amounts [OF df] by auto
  next
    case rest
    then show ?thesis using Cons.IH [OF fr] by auto
  qed
qed

section \<open>Projection: prefix sums, the day grid, events out of range\<close>

text \<open>
  Claim C1 says that the difference of consecutive balances, and of the first balance and
  the starting balance, equals the net amount of the day, for every starting balance and
  all events. The balances are float64 sums: with the starting balance 0.1 (the float64
  next to it) and one income of 0.2 on the only day, the balance is 0.30000000000000004,
  and neither the exact nor the float64 difference to the starting balance is the net
  amount 0.2. (The float64 next to 0.1 is \<open>3602879701896397 / 2 ^ 55\<close>, the one next to 0.2
  is \<open>3602879701896397 / 2 ^ 54\<close>, and 0.30000000000000004 is \<open>1351079888211149 / 2 ^ 52\<close>.)
\<close>

theorem prefix_sum_law_rounding:
  "Date 2025 1 1 \<le> Date 2025 1 1
   \<and> tl_balance (project_balance_f64 (3602879701896397 / 36028797018963968)
        [\<lparr>ev_date = Date 2025 1 1, ev_amount = 3602879701896397 / 18014398509481984,
          ev_type = ''Income'', ev_name = ''pay''\<rparr>]
        (Date 2025 1 1) (Date 2025 1 1) ! 0)
       = 1351079888211149 / 4503599627370496
   \<and> net_amount
        [\<lparr>ev_date = Date 2025 1 1, ev_amount = 3602879701896397 / 18014398509481984,
          ev_type = ''Income'', ev_name = ''pay''\<rparr>] (Date 2025 1 1)
       = 3602879701896397 / 18014398509481984
   \<and> tl_balance (project_balance_f64 (3602879701896397 / 36028797018963968)
        [\<lparr>ev_date = Date 2025 1 1, ev_amount = 3602879701896397 / 18014398509481984,
          ev_type = ''Income'', ev_name = ''pay''\<rparr>]
        (Date 2025 1 1) (Date 2025 1 1) ! 0) - 3602879701896397 / 36028797018963968
       \<noteq> net_amount
        [\<lparr>ev_date = Date 2025 1 1, ev_amount = 3602879701896397 / 18014398509481984,
          ev_type = ''Income'', ev_name = ''pay''\<rparr>] (Date 2025 1 1)
   \<and> f64_round (tl_balance (project_balance_f64 (3602879701896397 / 36028797018963968)
        [\<lparr>ev_date = Date 2025 1 1, ev_amount = 3602879701896397 / 18014398509481984,
          ev_type = ''Income'', ev_name = ''pay''\<rparr>]
        (Date 2025 1 1) (Date 2025 1 1) ! 0) - 3602879701896397 / 36028797018963968)
       \<noteq> net_amount
        [\<lparr>ev_date = Date 2025 1 1, ev_amount = 3602879701896397 / 18014398509481984,
          ev_type = ''Income'', ev_name = ''pay''\<rparr>] (Date 2025 1 1)"
  by code_simp

text \<open>
  Claim C1, amended. With \<open>start_date \<le> end_date\<close> and a projection none of whose
  float64 additions rounds or overflows, the timeline has a first row, for
  \<open>start_date\<close>, whose balance minus the starting balance is the net amount of that day,
  and the balance of every later row minus the balance of the row before is the net amount
  of the events of its own date.
\<close>

theorem prefix_sum_law:
  assumes "s \<le> e" "run_exact B evs s e"
  shows "project_balance_f64 B evs s e \<noteq> []
    \<and> tl_date (project_balance_f64 B evs s e ! 0) = s
    \<and> tl_balance (project_balance_f64 B evs s e ! 0) - B = net_amount evs s
    \<and> (\<forall>i. 0 < i \<and> i < length (project_balance_f64 B evs s e) \<longrightarrow>
          tl_balance (project_balance_f64 B evs s e ! i)
            - tl_balance (project_balance_f64 B evs s e ! (i - 1))
          = net_amount evs (tl_date (project_balance_f64 B evs s e ! i)))"
  unfolding project_balance_f64_exact [OF assms(2)] using assms(1) by (rule prefix_sum_exact_arithmetic)

text \<open>
  The amended C1 on a three-day range with one bill of 50 on the second day and the
  starting balance 100, where every addition is exact.
\<close>

theorem prefix_sum_law_witness:
  "Date 2025 1 1 \<le> Date 2025 1 3
   \<and> run_exact 100
        [\<lparr>ev_date = Date 2025 1 2, ev_amount = -50, ev_type = ''Bill'', ev_name = ''rent''\<rparr>]
        (Date 2025 1 1) (Date 2025 1 3)
   \<and> tl_balance (project_balance_f64 100
        [\<lparr>ev_date = Date 2025 1 2, ev_amount = -50, ev_type = ''Bill'', ev_name = ''rent''\<rparr>]
        (Date 2025 1 1) (Date 2025 1 3) ! 0) - 100 = 0
   \<and> tl_balance (project_balance_f64 100
        [\<lparr>ev_date = Date 2025 1 2, ev_amount = -50, ev_type = ''Bill'', ev_name = ''rent''\<rparr>]
        (Date 2025 1 1) (Date 2025 1 3) ! 1)
     - tl_balance (project_balance_f64 100
        [\<lparr>ev_date = Date 2025 1 2, ev_amount = -50, ev_type = ''Bill'', ev_name = ''rent''\<rparr>]
        (Date 2025 1 1) (Date 2025 1 3) ! 0) = -50"
proof -
  let ?evs = "[\<lparr>ev_date = Date 2025 1 2, ev_amount = -50, ev_type = ''Bill'', ev_name = ''rent''\<rparr>]"
  let ?P = "project_balance_f64 100 ?evs (Date 2025 1 1) (Date 2025 1 3)"
  have le: "Date 2025 1 1 \<le> Date 2025 1 3" by (simp add: less_eq_date_def)
  have ex: "run_exact 100 ?evs (Date 2025 1 1) (Date 2025 1 3)" by code_simp
  have len: "length ?P = 3" by code_simp
  have n0: "net_amount ?evs (Date 2025 1 1) = 0" by code_simp
  have n1: "net_amount ?evs (tl_date (?P ! 1)) = -50" by code_simp
  note law = prefix_sum_law [OF le ex]
  have "tl_balance (?P ! 0) - 100 = 0" using law n0 by simp
  moreover have "tl_balance (?P ! 1) - tl_balance (?P ! (1 - 1)) = -50"
    using law [THEN conjunct2, THEN conjunct2, THEN conjunct2, rule_format, of 1] len n1
    by simp
  ultimately show ?thesis using le ex by simp
qed



text \<open>
  Claim C7. With \<open>start_date \<le> end_date\<close> the dates of the timeline are strictly
  ascending and distinct, they are exactly the calendar days of
  \<open>[start_date, end_date]\<close>, each row is the day after the row before, the first is
  \<open>start_date\<close> and the last \<open>end_date\<close>; a range of one day gives one row.
\<close>

theorem timeline_one_row_per_day:
  assumes "valid_date s" "valid_date e" "s \<le> e"
  shows "sorted_wrt (<) (map tl_date (project_balance B evs s e))
    \<and> distinct (map tl_date (project_balance B evs s e))
    \<and> set (map tl_date (project_balance B evs s e)) = {d. valid_date d \<and> s \<le> d \<and> d \<le> e}
    \<and> (\<forall>i. Suc i < length (project_balance B evs s e) \<longrightarrow>
          tl_date (project_balance B evs s e ! Suc i) = next_day (tl_date (project_balance B evs s e ! i)))
    \<and> hd (map tl_date (project_balance B evs s e)) = s
    \<and> last (map tl_date (project_balance B evs s e)) = e
    \<and> (s = e \<longrightarrow> length (project_balance B evs s e) = 1)"
proof -
  let ?ds = "date_range s e"
  have ds: "map tl_date (project_balance B evs s e) = ?ds" by (rule dates_project_balance)
  have sorted: "sorted_wrt (<) ?ds" by (rule date_range_sorted)
  then have dist: "distinct ?ds" by (simp add: strict_sorted_iff)
  have set: "set ?ds = {d. valid_date d \<and> s \<le> d \<and> d \<le> e}"
    using assms(1) date_range_valid date_range_bounds date_range_covers by blast
  have ne: "?ds \<noteq> []" using assms(3) by (simp add: date_range_Cons)
  have hd: "hd ?ds = s" using assms(3) by (simp add: date_range_Cons)
  have "e \<in> set ?ds" using set assms by simp
  moreover have "sorted ?ds" using sorted by (simp add: strict_sorted_iff)
  ultimately have "e \<le> last ?ds" by (simp add: sorted_le_last)
  moreover have "last ?ds \<le> e" using last_in_set [OF ne] date_range_bounds by blast
  ultimately have last: "last ?ds = e" by simp
  have consec: "\<forall>i. Suc i < length (project_balance B evs s e) \<longrightarrow>
          tl_date (project_balance B evs s e ! Suc i) = next_day (tl_date (project_balance B evs s e ! i))"
  proof (intro allI impI)
    fix i
    assume "Suc i < length (project_balance B evs s e)"
    then have lt: "Suc i < length ?ds" by (simp add: length_project_balance)
    then have "i < length ?ds" by simp
    then show "tl_date (project_balance B evs s e ! Suc i) = next_day (tl_date (project_balance B evs s e ! i))"
      using lt by (simp add: nth_project_balance date_range_consecutive)
  qed
  have one: "s = e \<longrightarrow> length (project_balance B evs s e) = 1"
    by (simp add: length_project_balance date_range_single)
  show ?thesis
    unfolding ds using sorted dist set hd last consec one by simp
qed

text \<open>
  The theorem of C7 on the first three days of 2025 and on a range of one day.
\<close>

theorem timeline_one_row_per_day_witness:
  "valid_date (Date 2025 1 1) \<and> valid_date (Date 2025 1 3) \<and> Date 2025 1 1 \<le> Date 2025 1 3
   \<and> sorted_wrt (<) (map tl_date (project_balance 100 [] (Date 2025 1 1) (Date 2025 1 3)))
   \<and> distinct (map tl_date (project_balance 100 [] (Date 2025 1 1) (Date 2025 1 3)))
   \<and> hd (map tl_date (project_balance 100 [] (Date 2025 1 1) (Date 2025 1 3))) = Date 2025 1 1
   \<and> last (map tl_date (project_balance 100 [] (Date 2025 1 1) (Date 2025 1 3))) = Date 2025 1 3
   \<and> valid_date (Date 2025 1 2) \<and> length (project_balance 100 [] (Date 2025 1 2) (Date 2025 1 2)) = 1"
proof -
  have v: "valid_date (Date 2025 1 1)" "valid_date (Date 2025 1 3)" "valid_date (Date 2025 1 2)"
    by (simp_all add: valid_date_def days_in_month_def)
  have le: "Date 2025 1 1 \<le> Date 2025 1 3" by (simp add: less_eq_date_def)
  show ?thesis
    using v le timeline_one_row_per_day [OF v(1) v(2) le, of 100 "[]"]
      timeline_one_row_per_day [OF v(3) v(3) order_refl, of 100 "[]"]
    by simp
qed

section \<open>The scenario, removal and the sign of bills\<close>

text \<open>
  Claim C8. In the scenario with starting balance 100 and the range 2025-01-01 to
  2025-04-01 the balances on the first of January, February, March and April are
  50, 0, -50 and -100; the minimum of the balances is -100 and the test for a negative
  balance succeeds.
\<close>

theorem scenario_balances:
  "(case projection scenario 100 (Date 2025 1 1) (Date 2025 4 1) of
      Some (Inr timeline) \<Rightarrow>
        balance_on timeline (Date 2025 1 1) = [50]
        \<and> balance_on timeline (Date 2025 2 1) = [0]
        \<and> balance_on timeline (Date 2025 3 1) = [-50]
        \<and> balance_on timeline (Date 2025 4 1) = [-100]
        \<and> min_balance timeline = Some (-100)
        \<and> goes_negative timeline
    | _ \<Rightarrow> False)"
  by code_simp

text \<open>
  Claim C9 says that the removal takes out every entry whose name is the given value.
  The handlers do nothing for the value \<^verbatim>\<open>"None"\<close>, the first option of the select
  box: a bill with that name stays.
\<close>

theorem delete_none_keeps_entry:
  "bills (delete_bill
     \<lparr>bills = [\<lparr>d_name = ''None'', d_amount = -50, d_frequency = ''Monthly'',
                 d_start_date = Date 2025 1 1, d_end_date = Date 2025 4 1\<rparr>],
      income = [], data_file = None\<rparr> ''None'')
   = [\<lparr>d_name = ''None'', d_amount = -50, d_frequency = ''Monthly'',
       d_start_date = Date 2025 1 1, d_end_date = Date 2025 4 1\<rparr>]"
  by (simp add: delete_bill_def)

text \<open>
  Claim C9, amended. For every value other than \<^verbatim>\<open>"None"\<close> the handler keeps exactly
  the entries of its collection with another name, in their order, and leaves the other
  collection as it is; when no entry has the name the collection is unchanged; for the
  value \<^verbatim>\<open>"None"\<close> the session is unchanged.
\<close>

theorem delete_removes_all:
  "(remove \<noteq> ''None'' \<longrightarrow>
      bills (delete_bill st remove) = filter (\<lambda>b. d_name b \<noteq> remove) (bills st)
      \<and> income (delete_bill st remove) = income st
      \<and> remove \<notin> d_name ` set (bills (delete_bill st remove))
      \<and> income (delete_income st remove) = filter (\<lambda>i. d_name i \<noteq> remove) (income st)
      \<and> bills (delete_income st remove) = bills st
      \<and> remove \<notin> d_name ` set (income (delete_income st remove)))
   \<and> (remove \<notin> d_name ` set (bills st) \<longrightarrow> bills (delete_bill st remove) = bills st)
   \<and> (remove \<notin> d_name ` set (income st) \<longrightarrow> income (delete_income st remove) = income st)
   \<and> delete_bill st ''None'' = st \<and> delete_income st ''None'' = st"
proof -
  have keep: "filter (\<lambda>b. d_name b \<noteq> remove) xs = xs" if "remove \<notin> d_name ` set xs"
    for xs :: "cashflow list"
    using that by (induction xs) auto
  show ?thesis
    by (auto simp: delete_bill_def delete_income_def save_data_def keep)
qed

text \<open>
  The amended C9 with two bills of the same name and one other, and with a name that
  no bill has.
\<close>

theorem delete_removes_all_witness:
  "''rent'' \<noteq> ''None''
   \<and> bills (delete_bill
       \<lparr>bills = [\<lparr>d_name = ''rent'', d_amount = -50, d_frequency = ''Monthly'',
                   d_start_date = Date 2025 1 1, d_end_date = Date 2025 4 1\<rparr>,
                 \<lparr>d_name = ''gym'', d_amount = -20, d_frequency = ''Weekly'',
                   d_start_date = Date 2025 1 1, d_end_date = Date 2025 4 1\<rparr>,
                 \<lparr>d_name = ''rent'', d_amount = -60, d_frequency = ''Yearly'',
                   d_start_date = Date 2025 1 1, d_end_date = Date 2025 4 1\<rparr>],
        income = [], data_file = None\<rparr> ''rent'')
     = [\<lparr>d_name = ''gym'', d_amount = -20, d_frequency = ''Weekly'',
         d_start_date = Date 2025 1 1, d_end_date = Date 2025 4 1\<rparr>]
   \<and> ''water'' \<notin> d_name ` set [\<lparr>d_name = ''gym'', d_amount = -20, d_frequency = ''Weekly'',
         d_start_date = Date 2025 1 1, d_end_date = Date 2025 4 1\<rparr>]
   \<and> bills (delete_bill
       \<lparr>bills = [\<lparr>d_name = ''gym'', d_amount = -20, d_frequency = ''Weekly'',
                   d_start_date = Date 2025 1 1, d_end_date = Date 2025 4 1\<rparr>],
        income = [], data_file = None\<rparr> ''water'')
     = [\<lparr>d_name = ''gym'', d_amount = -20, d_frequency = ''Weekly'',
         d_start_date = Date 2025 1 1, d_end_date = Date 2025 4 1\<rparr>]"
proof -
  let ?rent = "\<lparr>d_name = ''rent'', d_amount = -50, d_frequency = ''Monthly'',
                   d_start_date = Date 2025 1 1, d_end_date = Date 2025 4 1\<rparr>"
  let ?gym = "\<lparr>d_name = ''gym'', d_amount = -20, d_frequency = ''Weekly'',
                   d_start_date = Date 2025 1 1, d_end_date = Date 2025 4 1\<rparr>"
  let ?rent2 = "\<lparr>d_name = ''rent'', d_amount = -60, d_frequency = ''Yearly'',
                   d_start_date = Date 2025 1 1, d_end_date = Date 2025 4 1\<rparr>"
  have ne: "''rent'' \<noteq> ''None''" by simp
  have nf: "''water'' \<notin> d_name ` set [?gym]" by simp
  have "bills (delete_bill \<lparr>bills = [?rent, ?gym, ?rent2], income = [], data_file = None\<rparr> ''rent'')
        = filter (\<lambda>b. d_name b \<noteq> ''rent'') [?rent, ?gym, ?rent2]"
    using ne delete_removes_all [of "''rent''" "\<lparr>bills = [?rent, ?gym, ?rent2], income = [], data_file = None\<rparr>"]
    by simp
  moreover have "bills (delete_bill \<lparr>bills = [?gym], income = [], data_file = None\<rparr> ''water'') = [?gym]"
    using nf delete_removes_all [of "''water''" "\<lparr>bills = [?gym], income = [], data_file = None\<rparr>"]
    by simp
  ultimately show ?thesis using ne nf by simp
qed

text \<open>
  Claim C10. The entry that \<^verbatim>\<open>Add\<close> appends for a bill carries the negated amount when
  the amount entered is positive and the amount itself otherwise, so it is not positive
  (an income is not appended to the bills). In every session that starts with no file no
  bill has a positive amount, and neither has an event of the expansion of the bills.
\<close>

theorem bills_never_positive:
  "(flow_type = ''Bill (expense)'' \<longrightarrow>
      bills (add_entry st flow_type nm a freq sd ed) =
        bills st @ [\<lparr>d_name = nm, d_amount = (if a > 0 then - a else a), d_frequency = freq,
                     d_start_date = sd, d_end_date = ed\<rparr>]
      \<and> (if a > 0 then - a else a) \<le> 0)
   \<and> (flow_type \<noteq> ''Bill (expense)'' \<longrightarrow> bills (add_entry st flow_type nm a freq sd ed) = bills st)
   \<and> (\<forall>b\<in>set (bills (run acts)). d_amount b \<le> 0)
   \<and> (\<forall>evs. expand_items ''Bill'' (bills (run acts)) = Some (Inr evs) \<longrightarrow>
         (\<forall>ev\<in>set evs. ev_amount ev \<le> 0))"
proof (intro conjI impI allI ballI)
  assume "flow_type = ''Bill (expense)''"
  then show "bills (add_entry st flow_type nm a freq sd ed) =
        bills st @ [\<lparr>d_name = nm, d_amount = (if a > 0 then - a else a), d_frequency = freq,
                     d_start_date = sd, d_end_date = ed\<rparr>]"
    by (simp add: add_entry_def save_data_def Let_def sidebar_amount_bill(1))
next
  show "(if a > 0 then - a else a) \<le> 0" by simp
next
  assume "flow_type \<noteq> ''Bill (expense)''"
  then show "bills (add_entry st flow_type nm a freq sd ed) = bills st"
    by (simp add: add_entry_def save_data_def Let_def)
next
  fix b
  assume "b \<in> set (bills (run acts))"
  then show "d_amount b \<le> 0" using bills_ok_run [of acts] by (simp add: bills_ok_def)
next
  fix evs ev
  assume "expand_items ''Bill'' (bills (run acts)) = Some (Inr evs)" "ev \<in> set evs"
  then obtain item where "item \<in> set (bills (run acts))" "ev_amount ev = d_amount item"
    using expand_items_amounts by blast
  then show "ev_amount ev \<le> 0" using bills_ok_run [of acts] by (simp add: bills_ok_def)
qed

text \<open>
  The theorem of C10 for a bill entered with the amount 50.
\<close>

theorem bills_never_positive_witness:
  "bills (add_entry (init_session None) ''Bill (expense)'' ''rent'' 50 ''Monthly''
            (Date 2025 1 1) (Date 2025 4 1))
     = [\<lparr>d_name = ''rent'', d_amount = - 50, d_frequency = ''Monthly'',
          d_start_date = Date 2025 1 1, d_end_date = Date 2025 4 1\<rparr>]
   \<and> bills (run [Add ''Bill (expense)'' ''rent'' 50 ''Monthly'' (Date 2025 1 1) (Date 2025 4 1)])
     = [\<lparr>d_name = ''rent'', d_amount = - 50, d_frequency = ''Monthly'',
          d_start_date = Date 2025 1 1, d_end_date = Date 2025 4 1\<rparr>]
   \<and> d_amount \<lparr>d_name = ''rent'', d_amount = - 50, d_frequency = ''Monthly'',
          d_start_date = Date 2025 1 1, d_end_date = Date 2025 4 1\<rparr> \<le> 0"
proof -
  let ?acts = "[Add ''Bill (expense)'' ''rent'' 50 ''Monthly'' (Date 2025 1 1) (Date 2025 4 1)]"
  let ?rent = "\<lparr>d_name = ''rent'', d_amount = - 50, d_frequency = ''Monthly'',
          d_start_date = Date 2025 1 1, d_end_date = Date 2025 4 1\<rparr>"
  note inst = bills_never_positive [of "''Bill (expense)''" "init_session None" "''rent''" 50
      "''Monthly''" "Date 2025 1 1" "Date 2025 4 1" ?acts]
  have empty: "bills (init_session None) = []" by (simp add: init_session_def load_data_def)
  have added: "bills (add_entry (init_session None) ''Bill (expense)'' ''rent'' 50 ''Monthly''
            (Date 2025 1 1) (Date 2025 4 1)) = [?rent]"
    using inst empty by simp
  then have ran: "bills (run ?acts) = [?rent]" by (simp add: run_def)
  have "\<forall>b\<in>set (bills (run ?acts)). d_amount b \<le> 0" using inst by blast
  then have "d_amount ?rent \<le> 0" unfolding ran by simp
  then show ?thesis using added ran by simp
qed

end
